theory Spec2Isabelle
  imports Main "HOL-Library.Sublist"
begin

section \<open>Python strings\<close>

text \<open>
  A Python \<open>str\<close> is modelled as a \<open>string\<close>, one \<open>char\<close> per code point; the model
  therefore covers the code points below 256. \<open>isspace\<close> lists the code points below 256
  for which Python's \<open>str.isspace\<close> is true; these are the characters that \<open>str.strip()\<close>
  removes: tab, line feed, vertical tab, form feed, carriage return, the separators
  0x1C to 0x1F, space, 0x85 and 0xA0.
\<close>

definition isspace :: "char \<Rightarrow> bool" where
  "isspace c =
     (let n = (of_char c :: nat)
      in (9 \<le> n \<and> n \<le> 13) \<or> (28 \<le> n \<and> n \<le> 32) \<or> n = 133 \<or> n = 160)"

definition lstrip :: "string \<Rightarrow> string" where
  "lstrip s = dropWhile isspace s"

definition rstrip :: "string \<Rightarrow> string" where
  "rstrip s = rev (dropWhile isspace (rev s))"

definition strip :: "string \<Rightarrow> string" where
  "strip s = rstrip (lstrip s)"

text \<open>\<open>text.split('\n')\<close>: the pieces between line feeds; the empty string gives one empty piece.\<close>

fun split_newline :: "string \<Rightarrow> string list" where
  "split_newline [] = [[]]"
| "split_newline (c # cs) =
     (if c = CHR 0x0A then [] # split_newline cs
      else (case split_newline cs of
              [] \<Rightarrow> [[c]]
            | l # ls \<Rightarrow> (c # l) # ls))"

text \<open>\<open>"\n".join(xs)\<close>.\<close>

fun join_newline :: "string list \<Rightarrow> string" where
  "join_newline [] = []"
| "join_newline [x] = x"
| "join_newline (x # y # ys) = x @ CHR 0x0A # join_newline (y # ys)"

text \<open>\<open>str(idx)\<close> for a non-negative integer: its decimal digits.\<close>

function str_nat :: "nat \<Rightarrow> string" where
  "str_nat n =
     (if n < 10 then [char_of (48 + n)]
      else str_nat (n div 10) @ [char_of (48 + n mod 10)])"
  by pat_completeness auto
termination
  by (relation "measure id") auto

declare str_nat.simps [simp del]

section \<open>Exceptions\<close>

text \<open>
  The exceptions that the modelled code raises or lets through, each with a detail:
  \<^item> \<open>AttributeError\<close>: the type name of the object that has no \<open>append\<close>;
  \<^item> \<open>KeyError\<close>: the model name for which \<open>tiktoken.encoding_for_model\<close> knows no encoding;
  \<^item> \<open>ValueError\<close>: the text that \<open>encoding.encode\<close> refuses because it holds a special token,
    or the message of a \<open>ValueError\<close> of \<open>json.load\<close>;
  \<^item> \<open>OSError\<close>: the path that \<open>open\<close> cannot open (a directory, a file without permission);
  \<^item> \<open>UnicodeDecodeError\<close>: the path of a file whose bytes are not UTF-8;
  \<^item> \<open>JSONDecodeError\<close>: the path of a file whose text is not a JSON document;
  \<^item> \<open>RecursionError\<close>: the path of a file whose JSON document is nested too deeply;
  \<^item> \<open>FileReadError\<close>: the path of a selected file, standing for any exception of
    \<open>open(fp, "r", encoding="utf-8")\<close> or \<open>f.read()\<close> on it.
\<close>

datatype error =
    AttributeError string
  | KeyError string
  | ValueError string
  | OSError string
  | UnicodeDecodeError string
  | JSONDecodeError string
  | RecursionError string
  | FileReadError string

text \<open>
  \<open>str(e)\<close>, as shown after \<open>"Error: "\<close>. Only an \<open>AttributeError\<close> reaches the handler's
  \<open>except\<close> clause in this model; for the other exceptions the detail stands for the message.
\<close>

fun str_error :: "error \<Rightarrow> string" where
  "str_error (AttributeError t) =
     [CHR 0x27] @ t @ [CHR 0x27] @ '' object has no attribute '' @ [CHR 0x27] @ ''append'' @ [CHR 0x27]"
| "str_error (KeyError d) = d"
| "str_error (ValueError d) = d"
| "str_error (OSError d) = d"
| "str_error (UnicodeDecodeError d) = d"
| "str_error (JSONDecodeError d) = d"
| "str_error (RecursionError d) = d"
| "str_error (FileReadError d) = d"

section \<open>Tokenizer adapter and chunker\<close>

text \<open>
  \<open>count_tokens\<close> asks tiktoken for the encoding of the model and returns the length of the
  encoded text. The tables belong to the tiktoken library, not to this program, so the
  library is a parameter: \<open>encoding_for_model\<close> maps a model name to an encoding, or raises
  \<open>KeyError\<close> (\<open>None\<close>) for a name it does not know; the \<open>encode\<close> of an encoding maps a text
  to its token ids, or raises \<open>ValueError\<close> (\<open>None\<close>) for a text that holds one of the
  encoding's special tokens.
\<close>

type_synonym encoding = "string \<Rightarrow> nat list option"

type_synonym tiktoken = "string \<Rightarrow> encoding option"

definition MODEL_NAME :: string where
  "MODEL_NAME = ''o1-mini-2024-09-12''"

definition CHUNK_SIZE :: int where
  "CHUNK_SIZE = 3000"

definition count_tokens :: "tiktoken \<Rightarrow> string \<Rightarrow> string \<Rightarrow> error + int" where
  "count_tokens tk s model_name =
     (case tk model_name of
        None \<Rightarrow> Inl (KeyError model_name)
      | Some enc \<Rightarrow>
          (case enc s of
             None \<Rightarrow> Inl (ValueError s)
           | Some toks \<Rightarrow> Inr (int (length toks))))"

text \<open>
  The body of the \<open>for paragraph in paragraphs\<close> loop of \<open>chunk_text\<close>, on the loop state
  \<open>(chunks, current_chunk)\<close>. \<open>count_tokens(candidate)\<close> uses the default model name and is
  evaluated first, so its exception leaves the loop; Python's \<open>and current_chunk\<close> tests
  that the buffer is not the empty string.
\<close>

fun chunk_loop :: "tiktoken \<Rightarrow> int \<Rightarrow> string list \<Rightarrow> string \<Rightarrow> string list \<Rightarrow> error + string list \<times> string" where
  "chunk_loop tk max_tokens chunks current_chunk [] = Inr (chunks, current_chunk)"
| "chunk_loop tk max_tokens chunks current_chunk (paragraph # paragraphs) =
     (let candidate = strip (current_chunk @ [CHR 0x0A] @ paragraph)
      in case count_tokens tk candidate MODEL_NAME of
           Inl err \<Rightarrow> Inl err
         | Inr n \<Rightarrow>
             if n > max_tokens \<and> current_chunk \<noteq> []
             then chunk_loop tk max_tokens (chunks @ [current_chunk]) paragraph paragraphs
             else if current_chunk = []
                  then chunk_loop tk max_tokens chunks paragraph paragraphs
                  else chunk_loop tk max_tokens chunks (current_chunk @ [CHR 0x0A] @ paragraph) paragraphs)"

definition chunk_text :: "tiktoken \<Rightarrow> string \<Rightarrow> int \<Rightarrow> error + string list" where
  "chunk_text tk txt max_tokens =
     (case chunk_loop tk max_tokens [] [] (split_newline txt) of
        Inl err \<Rightarrow> Inl err
      | Inr (chunks, current_chunk) \<Rightarrow>
          Inr (if strip current_chunk \<noteq> [] then chunks @ [current_chunk] else chunks))"

text \<open>
  The conditions the chunker's properties are stated under. The tokenizer accepts a text
  when it counts the tokens of every contiguous piece of it (with tiktoken: the text holds
  no special token). A string is within the budget when its stripped form has a token
  count of at most \<open>N\<close>, and over the budget when that count is greater than \<open>N\<close>.
\<close>

definition accepts :: "tiktoken \<Rightarrow> string \<Rightarrow> bool" where
  "accepts tk txt \<longleftrightarrow> (\<forall>s\<in>set (sublists txt). \<not> isl (count_tokens tk s MODEL_NAME))"

definition within_budget :: "tiktoken \<Rightarrow> int \<Rightarrow> string \<Rightarrow> bool" where
  "within_budget tk N s =
     (case count_tokens tk (strip s) MODEL_NAME of Inl err \<Rightarrow> False | Inr n \<Rightarrow> n \<le> N)"

definition over_budget :: "tiktoken \<Rightarrow> int \<Rightarrow> string \<Rightarrow> bool" where
  "over_budget tk N s =
     (case count_tokens tk (strip s) MODEL_NAME of Inl err \<Rightarrow> False | Inr n \<Rightarrow> n > N)"

text \<open>
  Stand-ins for evaluating the chunker on concrete inputs: byte-pair encoding with an empty
  merge table and no special token, that is, one token per character; the same with the
  special token \<open><|endoftext|>\<close>; and a tiktoken that knows each for every model name.
\<close>

definition char_encoding :: encoding where
  "char_encoding s = Some (map of_char s)"

definition char_tiktoken :: tiktoken where
  "char_tiktoken model_name = Some char_encoding"

definition guarded_encoding :: encoding where
  "guarded_encoding s = (if sublist ''<|endoftext|>'' s then None else Some (map of_char s))"

definition guarded_tiktoken :: tiktoken where
  "guarded_tiktoken model_name = Some guarded_encoding"

section \<open>Conversation history\<close>

text \<open>
  The history is whatever \<open>json.load\<close> returned or the program built: Python does not
  type it. \<open>json\<close> is the value domain of the \<open>json\<close> module (numbers restricted to
  integers; the program creates none). A message is the dictionary
  \<open>{"role": r, "content": c}\<close>; a history is meant to be a list of messages.
\<close>

datatype json =
    JNull
  | JBool bool
  | JInt int
  | JStr string
  | JArr "json list"
  | JObj "(string \<times> json) list"

text \<open>Python truth value, as tested by \<open>if not conversation_history\<close>.\<close>

fun truthy :: "json \<Rightarrow> bool" where
  "truthy JNull = False"
| "truthy (JBool b) = b"
| "truthy (JInt n) = (n \<noteq> 0)"
| "truthy (JStr s) = (s \<noteq> [])"
| "truthy (JArr xs) = (xs \<noteq> [])"
| "truthy (JObj kvs) = (kvs \<noteq> [])"

fun type_name :: "json \<Rightarrow> string" where
  "type_name JNull = ''NoneType''"
| "type_name (JBool b) = ''bool''"
| "type_name (JInt n) = ''int''"
| "type_name (JStr s) = ''str''"
| "type_name (JArr xs) = ''list''"
| "type_name (JObj kvs) = ''dict''"

definition message :: "string \<Rightarrow> string \<Rightarrow> json" where
  "message role content = JObj [(''role'', JStr role), (''content'', JStr content)]"

text \<open>\<open>history.append(m)\<close>: only a list has \<open>append\<close>.\<close>

fun append_json :: "json \<Rightarrow> json \<Rightarrow> error + json" where
  "append_json (JArr xs) m = Inr (JArr (xs @ [m]))"
| "append_json h m = Inl (AttributeError (type_name h))"

definition add_developer_message :: "json \<Rightarrow> string \<Rightarrow> error + json" where
  "add_developer_message history content = append_json history (message ''developer'' content)"

definition add_user_message :: "json \<Rightarrow> string \<Rightarrow> error + json" where
  "add_user_message history content = append_json history (message ''user'' content)"

definition add_assistant_message :: "json \<Rightarrow> string \<Rightarrow> error + json" where
  "add_assistant_message history content = append_json history (message ''assistant'' content)"

section \<open>History store\<close>

text \<open>
  \<open>load_or_init_history\<close> sees a path through \<open>os.path.exists\<close>, \<open>open\<close> and \<open>json.load\<close>, which
  belong to Python's library. A path that is not in the map does not exist. A path that
  exists is represented by what the two calls do with it: \<open>open\<close> raises (\<open>OpenRaises\<close>: the
  path is a directory, or may not be read), \<open>json.load\<close> raises (\<open>LoadRaises\<close>: the bytes are
  not UTF-8, the text is not a JSON document, the document is nested too deeply or holds
  a number that Python refuses to convert), or \<open>json.load\<close> returns a value (\<open>Loads\<close>).
\<close>

datatype stored = OpenRaises error | LoadRaises error | Loads json

definition HISTORY_JSON_PATH :: string where
  "HISTORY_JSON_PATH = ''conversation_history.json''"

text \<open>
  \<open>open\<close> stands before the \<open>try\<close>, so its exception leaves the function; of the exceptions
  of \<open>json.load\<close>, the \<open>except\<close> clause catches \<open>json.JSONDecodeError\<close> and no other.
\<close>

fun is_JSONDecodeError :: "error \<Rightarrow> bool" where
  "is_JSONDecodeError (JSONDecodeError d) = True"
| "is_JSONDecodeError err = False"

definition load_or_init_history :: "(string \<rightharpoonup> stored) \<Rightarrow> string \<Rightarrow> error + json" where
  "load_or_init_history fs filepath =
     (case fs filepath of
        None \<Rightarrow> Inr (JArr [])
      | Some (OpenRaises err) \<Rightarrow> Inl err
      | Some (LoadRaises err) \<Rightarrow> if is_JSONDecodeError err then Inr (JArr []) else Inl err
      | Some (Loads v) \<Rightarrow> Inr v)"

definition save_history :: "(string \<rightharpoonup> stored) \<Rightarrow> string \<Rightarrow> json \<Rightarrow> (string \<rightharpoonup> stored)" where
  "save_history fs filepath history = fs(filepath \<mapsto> Loads history)"

section \<open>Completion call\<close>

record request =
  model :: string
  messages :: json
  temperature :: int

definition chat_request :: "json \<Rightarrow> request" where
  "chat_request history = \<lparr>model = MODEL_NAME, messages = history, temperature = 1\<rparr>"

text \<open>
  The collaborators outside the program: the tiktoken library, the text files the user
  selects (\<open>read_file fp = None\<close> when opening or decoding \<open>fp\<close> raises), and the
  completion endpoint, which answers a request with the content of the first choice
  (\<open>Inr\<close>) or makes the call raise an exception \<open>e\<close> (\<open>Inl\<close> of \<open>str(e)\<close>).
\<close>

record env =
  tiktoken :: tiktoken
  read_file :: "string \<rightharpoonup> string"
  chat_completion :: "request \<Rightarrow> string + string"

definition send_chat_completion :: "env \<Rightarrow> json \<Rightarrow> string + string" where
  "send_chat_completion e history = chat_completion e (chat_request history)"

section \<open>Conversation orchestrator\<close>

text \<open>
  The variables of \<open>main\<close> that the event handlers read and write, the files seen through
  the history store, what the program last wrote into the window's three text elements,
  the pop-ups it has shown, and the requests it has sent to the completion endpoint.
\<close>

record state =
  conversation_history :: json
  loaded_files :: "string list"
  disk :: "string \<rightharpoonup> stored"
  files_box :: string
  prompt_box :: string
  response_box :: string
  popups :: "string list"
  api_calls :: "request list"

text \<open>
  A handler either returns to the event loop (\<open>Continue\<close>) or lets an exception leave
  \<open>main\<close> (\<open>Crash\<close>, with the state at the raise).
\<close>

datatype outcome = Continue state | Crash error state

definition initial_instructions :: string where
  "initial_instructions =
     ''You are a helpful code assistant that can review, debug, and discuss code. '' @
     ''You have a limited context window, so keep your answers concise. '' @
     ''Your role is 'developer', which is like a system role for some models.''"

text \<open>\<open>main\<close> up to the event loop.\<close>

definition main_init :: "(string \<rightharpoonup> stored) \<Rightarrow> outcome" where
  "main_init fs =
     (let st = \<lparr>conversation_history = JArr [], loaded_files = [], disk = fs,
                files_box = [], prompt_box = [], response_box = [], popups = [],
                api_calls = []\<rparr>
      in case load_or_init_history fs HISTORY_JSON_PATH of
           Inl err \<Rightarrow> Crash err st
         | Inr h \<Rightarrow>
             if \<not> truthy h
             then (case add_developer_message h initial_instructions of
                     Inl err \<Rightarrow> Crash err (st\<lparr>conversation_history := h\<rparr>)
                   | Inr h' \<Rightarrow>
                       Continue (st\<lparr>conversation_history := h',
                                    disk := save_history fs HISTORY_JSON_PATH h'\<rparr>))
             else Continue (st\<lparr>conversation_history := h\<rparr>))"

text \<open>The \<open>-CLEAR_FILES-\<close> and \<open>-CLEAR_CONVO-\<close> handlers.\<close>

definition clear_files_event :: "state \<Rightarrow> state" where
  "clear_files_event st = st\<lparr>loaded_files := [], files_box := []\<rparr>"

definition clear_convo_event :: "state \<Rightarrow> state" where
  "clear_convo_event st =
     st\<lparr>conversation_history := JArr [],
        disk := save_history (disk st) HISTORY_JSON_PATH (JArr []),
        response_box := [],
        popups := popups st @
          [''Conversation cleared. Next prompt will start fresh developer instructions.'']\<rparr>"

text \<open>\<open>os.path.basename\<close> (POSIX): what follows the last slash.\<close>

definition basename :: "string \<Rightarrow> string" where
  "basename p = rev (takeWhile (\<lambda>c. c \<noteq> CHR ''/'') (rev p))"

definition chunk_msg :: "string \<Rightarrow> nat \<Rightarrow> string \<Rightarrow> string" where
  "chunk_msg fp idx chunk =
     ''[FILE: '' @ basename fp @ '', PART '' @ str_nat idx @ '']'' @ [CHR 0x0A] @ chunk"

text \<open>
  The two nested loops of the Send handler. The history is mutated in place, so when an
  exception leaves a loop the appends made before it stay: each loop returns the history
  it reached and the exception, if any. Reading a file and chunking its content stand
  outside any \<open>try\<close>.
\<close>

fun add_chunk_messages :: "string \<Rightarrow> nat \<Rightarrow> string list \<Rightarrow> json \<Rightarrow> json \<times> error option" where
  "add_chunk_messages fp idx [] history = (history, None)"
| "add_chunk_messages fp idx (chunk # code_chunks) history =
     (case add_user_message history (chunk_msg fp idx chunk) of
        Inl err \<Rightarrow> (history, Some err)
      | Inr history' \<Rightarrow> add_chunk_messages fp (Suc idx) code_chunks history')"

fun ingest_files :: "env \<Rightarrow> string list \<Rightarrow> json \<Rightarrow> json \<times> error option" where
  "ingest_files e [] history = (history, None)"
| "ingest_files e (fp # fps) history =
     (case read_file e fp of
        None \<Rightarrow> (history, Some (FileReadError fp))
      | Some code_content \<Rightarrow>
          (case chunk_text (tiktoken e) code_content CHUNK_SIZE of
             Inl err \<Rightarrow> (history, Some err)
           | Inr code_chunks \<Rightarrow>
               (case add_chunk_messages fp 1 code_chunks history of
                  (history', Some err) \<Rightarrow> (history', Some err)
                | (history', None) \<Rightarrow> ingest_files e fps history')))"

text \<open>Step 2 of the handler: \<open>if user_prompt: add_user_message(...)\<close>.\<close>

definition append_prompt :: "json \<Rightarrow> string \<Rightarrow> error + json" where
  "append_prompt history user_prompt =
     (if user_prompt \<noteq> [] then add_user_message history user_prompt else Inr history)"

text \<open>
  Step 3, the \<open>try\<close> block: the answer to display and the history after it. Every
  exception of the call, and of appending the answer, is caught.
\<close>

definition complete_turn :: "env \<Rightarrow> json \<Rightarrow> string \<times> json" where
  "complete_turn e history =
     (case send_chat_completion e history of
        Inl msg \<Rightarrow> (''Error: '' @ msg, history)
      | Inr answer \<Rightarrow>
          (case add_assistant_message history answer of
             Inl err \<Rightarrow> (''Error: '' @ str_error err, history)
           | Inr history' \<Rightarrow> (answer, history')))"

text \<open>
  The \<open>-SEND-\<close> handler; \<open>prompt_text\<close> is \<open>values["-PROMPT-"]\<close>, the text the user has
  typed into the prompt element.
\<close>

definition send_event :: "env \<Rightarrow> state \<Rightarrow> string \<Rightarrow> outcome" where
  "send_event e st prompt_text =
     (let user_prompt = strip prompt_text
      in if user_prompt = [] \<and> loaded_files st = []
         then Continue (st\<lparr>popups := popups st @
                 [''Please either enter a prompt or load files to send.'']\<rparr>)
         else (case ingest_files e (loaded_files st) (conversation_history st) of
                 (h1, Some err) \<Rightarrow> Crash err (st\<lparr>conversation_history := h1\<rparr>)
               | (h1, None) \<Rightarrow>
                   (let st1 = st\<lparr>conversation_history := h1, loaded_files := [], files_box := []\<rparr>
                    in case append_prompt h1 user_prompt of
                         Inl err \<Rightarrow> Crash err st1
                       | Inr h2 \<Rightarrow>
                           (case complete_turn e h2 of
                              (answer, h3) \<Rightarrow>
                                Continue (st1\<lparr>conversation_history := h3,
                                              api_calls := api_calls st1 @ [chat_request h2],
                                              response_box := answer,
                                              disk := save_history (disk st1) HISTORY_JSON_PATH h3,
                                              prompt_box := []\<rparr>)))))"

text \<open>
  Stand-ins for evaluating the handlers on concrete inputs: an endpoint that cannot be
  reached, an endpoint that always answers, and the state of a first run with no history
  file on disk.
\<close>

definition offline_api :: "request \<Rightarrow> string + string" where
  "offline_api r = Inl ''Connection error.''"

definition polite_api :: "request \<Rightarrow> string + string" where
  "polite_api r = Inr ''Hi!''"

definition offline_env :: env where
  "offline_env = \<lparr>tiktoken = char_tiktoken, read_file = Map.empty, chat_completion = offline_api\<rparr>"

definition polite_env :: env where
  "polite_env = \<lparr>tiktoken = char_tiktoken, read_file = Map.empty, chat_completion = polite_api\<rparr>"

definition fresh_state :: state where
  "fresh_state =
     \<lparr>conversation_history = JArr [message ''developer'' initial_instructions],
      loaded_files = [],
      disk = [HISTORY_JSON_PATH \<mapsto> Loads (JArr [message ''developer'' initial_instructions])],
      files_box = [], prompt_box = [], response_box = [], popups = [], api_calls = []\<rparr>"

section \<open>The messages of a turn\<close>

text \<open>
  What a Send is to append, in the words of the specification: for each loaded file, in
  selection order, one user message per chunk of its content, headed by the file's base
  name and the 1-based index of the part; then the stripped prompt, as one more user
  message, when it is not empty. There is a list of messages to append only when every
  file is read and chunked. What the endpoint's reply adds is one assistant message when
  the call answers, and nothing when it raises.
\<close>

definition part_messages :: "string \<Rightarrow> string list \<Rightarrow> json list" where
  "part_messages fp code_chunks =
     map (\<lambda>(idx, chunk). message ''user'' (chunk_msg fp idx chunk)) (enumerate 1 code_chunks)"

definition file_messages :: "env \<Rightarrow> string \<Rightarrow> json list option" where
  "file_messages e fp =
     (case read_file e fp of
        None \<Rightarrow> None
      | Some code_content \<Rightarrow>
          (case chunk_text (tiktoken e) code_content CHUNK_SIZE of
             Inl err \<Rightarrow> None
           | Inr code_chunks \<Rightarrow> Some (part_messages fp code_chunks)))"

definition prompt_messages :: "string \<Rightarrow> json list" where
  "prompt_messages prompt_text =
     (if strip prompt_text \<noteq> [] then [message ''user'' (strip prompt_text)] else [])"

definition turn_messages :: "env \<Rightarrow> string list \<Rightarrow> string \<Rightarrow> json list option" where
  "turn_messages e fps prompt_text =
     map_option (\<lambda>mss. concat mss @ prompt_messages prompt_text) (those (map (file_messages e) fps))"

definition reply_messages :: "env \<Rightarrow> json \<Rightarrow> json list" where
  "reply_messages e history =
     (case send_chat_completion e history of
        Inl msg \<Rightarrow> []
      | Inr answer \<Rightarrow> [message ''assistant'' answer])"

section \<open>The chunker's loop invariant\<close>

text \<open>
  What the loop of \<open>chunk_text\<close> maintains when no line exceeds the budget, \<open>seen\<close>
  being the lines consumed so far: either nothing but empty lines has been seen and the
  buffer is still empty, or the buffer is non-empty and within the budget, and the chunks
  and the buffer joined by line feeds are the lines seen without the leading empty ones.
\<close>

definition flat_inv :: "tiktoken \<Rightarrow> int \<Rightarrow> string list \<Rightarrow> string list \<Rightarrow> string \<Rightarrow> bool" where
  "flat_inv tk N seen chunks cur \<longleftrightarrow>
     (cur = [] \<and> chunks = [] \<and> (\<forall>l\<in>set seen. l = [])) \<or>
     (cur \<noteq> [] \<and> within_budget tk N cur \<and>
      join_newline (chunks @ [cur]) = join_newline (dropWhile (\<lambda>l. l = []) seen))"

section \<open>Facts about stripping, splitting and joining\<close>

lemma isspace_newline: "isspace (CHR 0x0A)"
  by (simp add: isspace_def)

lemma lstrip_eq_Nil: "lstrip s = [] \<longleftrightarrow> (\<forall>c\<in>set s. isspace c)"
  by (simp add: lstrip_def dropWhile_eq_Nil_conv)

lemma rstrip_eq_Nil: "rstrip s = [] \<longleftrightarrow> (\<forall>c\<in>set s. isspace c)"
  by (simp add: rstrip_def dropWhile_eq_Nil_conv)

lemma lstrip_head: "lstrip s \<noteq> [] \<Longrightarrow> \<not> isspace (hd (lstrip s))"
  unfolding lstrip_def by (rule hd_dropWhile)

lemma strip_eq_Nil: "strip s = [] \<longleftrightarrow> (\<forall>c\<in>set s. isspace c)"
proof
  assume "strip s = []"
  then have all: "\<forall>c\<in>set (lstrip s). isspace c"
    by (simp add: strip_def rstrip_eq_Nil)
  have "lstrip s = []"
  proof (rule ccontr)
    assume ne: "lstrip s \<noteq> []"
    then have "hd (lstrip s) \<in> set (lstrip s)" by simp
    with all lstrip_head [OF ne] show False by blast
  qed
  then show "\<forall>c\<in>set s. isspace c" by (simp add: lstrip_eq_Nil)
next
  assume "\<forall>c\<in>set s. isspace c"
  then have "lstrip s = []" by (simp add: lstrip_eq_Nil)
  then show "strip s = []" by (simp add: strip_def rstrip_def)
qed

lemma lstrip_prefix: "\<forall>c\<in>set a. isspace c \<Longrightarrow> lstrip (a @ t) = lstrip t"
  by (simp add: lstrip_def dropWhile_append)

lemma rstrip_suffix: "\<forall>c\<in>set b. isspace c \<Longrightarrow> rstrip (t @ b) = rstrip t"
  by (simp add: rstrip_def dropWhile_append)

lemma strip_suffix:
  assumes b: "\<forall>c\<in>set b. isspace c"
  shows "strip (t @ b) = strip t"
proof (cases "\<forall>c\<in>set t. isspace c")
  case True
  with b have "\<forall>c\<in>set (t @ b). isspace c" by auto
  then have "strip (t @ b) = []" by (simp only: strip_eq_Nil)
  moreover from True have "strip t = []" by (simp only: strip_eq_Nil)
  ultimately show ?thesis by simp
next
  case False
  then have "lstrip (t @ b) = lstrip t @ b"
    by (auto simp: lstrip_def dropWhile_append)
  then show ?thesis
    by (simp add: strip_def rstrip_suffix [OF b])
qed

lemma strip_pad:
  assumes "\<forall>c\<in>set a. isspace c" and "\<forall>c\<in>set b. isspace c"
  shows "strip (a @ t @ b) = strip t"
proof -
  have "strip (a @ t @ b) = rstrip (lstrip (t @ b))"
    by (simp add: strip_def lstrip_prefix [OF assms(1)])
  also have "\<dots> = strip (t @ b)" by (simp add: strip_def)
  also have "\<dots> = strip t" by (rule strip_suffix [OF assms(2)])
  finally show ?thesis .
qed

lemma strip_prefix: "\<forall>c\<in>set a. isspace c \<Longrightarrow> strip (a @ t) = strip t"
  using strip_pad [of a "[]" t] by simp

lemma split_newline_not_Nil: "split_newline s \<noteq> []"
  by (induction s) (auto split: list.splits)

lemma join_split_newline: "join_newline (split_newline s) = s"
proof (induction s)
  case Nil
  show ?case by simp
next
  case (Cons c cs)
  obtain l ls where sp: "split_newline cs = l # ls"
    using split_newline_not_Nil [of cs] by (cases "split_newline cs") auto
  show ?case
  proof (cases "c = CHR 0x0A")
    case True
    with Cons sp show ?thesis by simp
  next
    case False
    with Cons sp show ?thesis by (cases ls) auto
  qed
qed

lemma split_newline_single: "CHR 0x0A \<notin> set s \<Longrightarrow> split_newline s = [s]"
  by (induction s) auto

lemma join_newline_snoc:
  "join_newline (xs @ [p]) = (if xs = [] then p else join_newline xs @ CHR 0x0A # p)"
  by (induction xs rule: join_newline.induct) auto

lemma join_newline_last_append:
  "join_newline (xs @ [a @ b]) = join_newline (xs @ [a]) @ b"
  by (simp add: join_newline_snoc)

lemma join_newline_blank:
  "\<forall>l\<in>set ls. l = [] \<Longrightarrow> \<forall>c\<in>set (join_newline ls). isspace c"
  by (induction ls rule: join_newline.induct) (auto simp: isspace_newline)

lemma join_newline_leading_blank:
  "\<exists>pre. (\<forall>c\<in>set pre. isspace c) \<and>
     join_newline ls = pre @ join_newline (dropWhile (\<lambda>l. l = []) ls)"
proof (induction ls rule: join_newline.induct)
  case 1
  show ?case by simp
next
  case (2 x)
  show ?case by (cases "x = []") auto
next
  case (3 x y ys)
  show ?case
  proof (cases "x = []")
    case True
    from 3 obtain pre where pre: "\<forall>c\<in>set pre. isspace c"
      "join_newline (y # ys) = pre @ join_newline (dropWhile (\<lambda>l. l = []) (y # ys))"
      by blast
    have "join_newline (x # y # ys) = (CHR 0x0A # pre) @ join_newline (dropWhile (\<lambda>l. l = []) (x # y # ys))"
      using True pre(2) by simp
    moreover have "\<forall>c\<in>set (CHR 0x0A # pre). isspace c"
      using pre(1) by (simp add: isspace_newline)
    ultimately show ?thesis by blast
  next
    case False
    then have "join_newline (x # y # ys) = [] @ join_newline (dropWhile (\<lambda>l. l = []) (x # y # ys))"
      by simp
    then show ?thesis by (metis empty_iff empty_set)
  qed
qed

lemma strip_newline_end: "strip (s @ [CHR 0x0A] @ []) = strip s"
  using strip_suffix [of "[CHR 0x0A]" s] by (simp add: isspace_newline)

lemma strip_newline_start: "strip ([] @ [CHR 0x0A] @ s) = strip s"
  using strip_prefix [of "[CHR 0x0A]" s] by (simp add: isspace_newline)

lemma join_newline_snoc_not_Nil: "cur \<noteq> [] \<Longrightarrow> join_newline (chunks @ [cur]) \<noteq> []"
  by (simp add: join_newline_snoc)

lemma strip_Nil: "strip [] = []"
  by (simp add: strip_def rstrip_def lstrip_def)

lemma seen_nonblank:
  assumes "join_newline (dropWhile (\<lambda>l. l = []) seen) \<noteq> []"
  shows "\<exists>x\<in>set seen. x \<noteq> []"
proof (rule ccontr)
  assume "\<not> (\<exists>x\<in>set seen. x \<noteq> [])"
  then have "dropWhile (\<lambda>l. l = []) seen = []" by (simp add: dropWhile_eq_Nil_conv)
  with assms show False by simp
qed

section \<open>Facts about pieces of a text\<close>

lemma sublist_trans: "sublist xs ys \<Longrightarrow> sublist ys zs \<Longrightarrow> sublist xs zs"
  by (rule sublist_order.order.trans)

lemma strip_sublist: "sublist (strip s) s"
proof -
  have "sublist (rstrip (lstrip s)) (lstrip s)"
    by (simp add: rstrip_def sublist_rev_left)
  moreover have "sublist (lstrip s) s"
    by (simp add: lstrip_def)
  ultimately show ?thesis
    unfolding strip_def by (rule sublist_trans)
qed

lemma line_sublist_join: "l \<in> set ls \<Longrightarrow> sublist l (join_newline ls)"
proof (induction ls rule: join_newline.induct)
  case 1
  then show ?case by simp
next
  case (2 x)
  then show ?case by simp
next
  case (3 x y ys)
  show ?case
  proof (cases "l = x")
    case True
    then show ?thesis by simp
  next
    case False
    with 3 have "sublist l (join_newline (y # ys))" by simp
    moreover have "sublist (join_newline (y # ys)) (join_newline (x # y # ys))"
      using sublist_append_leftI [of "join_newline (y # ys)" "x @ [CHR 0x0A]"] by simp
    ultimately show ?thesis by (rule sublist_trans)
  qed
qed

lemma prefix_join_newline: "prefix (join_newline xs) (join_newline (xs @ ys))"
proof (induction xs rule: join_newline.induct)
  case 1
  show ?case by simp
next
  case (2 x)
  show ?case by (cases ys) simp_all
next
  case (3 x y zs)
  then show ?case by simp
qed

lemma accepts_sublist:
  assumes "accepts tk txt" and "sublist s txt"
  shows "\<exists>n. count_tokens tk s MODEL_NAME = Inr n"
proof (cases "count_tokens tk s MODEL_NAME")
  case (Inl err)
  from assms(2) have "s \<in> set (sublists txt)" by simp
  with assms(1) have "\<not> isl (count_tokens tk s MODEL_NAME)"
    unfolding accepts_def by blast
  with Inl show ?thesis by simp
next
  case (Inr n)
  then show ?thesis by blast
qed

lemma accepts_piece:
  assumes "accepts tk txt" and "sublist t txt"
  shows "accepts tk t"
  unfolding accepts_def
proof
  fix s
  assume "s \<in> set (sublists t)"
  then have "sublist s t" by simp
  then have "sublist s txt" using assms(2) by (rule sublist_trans)
  from accepts_sublist [OF assms(1) this] show "\<not> isl (count_tokens tk s MODEL_NAME)"
    by auto
qed

lemma within_or_over:
  assumes "accepts tk txt" and "sublist s txt"
  shows "within_budget tk N s \<or> over_budget tk N s"
proof -
  have "sublist (strip s) txt"
    using strip_sublist assms(2) by (rule sublist_trans)
  from accepts_sublist [OF assms(1) this] obtain n where
    "count_tokens tk (strip s) MODEL_NAME = Inr n" by blast
  then show ?thesis by (auto simp: within_budget_def over_budget_def)
qed

lemma count_tokens_char: "count_tokens char_tiktoken s m = Inr (int (length s))"
  by (simp add: count_tokens_def char_tiktoken_def char_encoding_def)

lemma accepts_char: "accepts char_tiktoken txt"
  by (simp add: accepts_def count_tokens_char)

section \<open>Facts about the chunker's loop\<close>

lemma chunk_loop_Cons_counts:
  assumes "chunk_loop tk N chunks cur (p # ps) = Inr r"
  shows "\<exists>n. count_tokens tk (strip (cur @ [CHR 0x0A] @ p)) MODEL_NAME = Inr n"
  using assms by (cases "count_tokens tk (strip (cur @ [CHR 0x0A] @ p)) MODEL_NAME") simp_all

text \<open>The loop returns when the tokenizer accepts the text.\<close>

lemma candidate_sublist:
  assumes "cur = [] \<or> (seen \<noteq> [] \<and> suffix cur (join_newline seen))"
  shows "sublist (strip (cur @ [CHR 0x0A] @ p)) (join_newline (seen @ p # ps))"
proof (cases "cur = []")
  case True
  have "sublist (strip p) p" by (rule strip_sublist)
  moreover have "sublist p (join_newline (seen @ p # ps))"
    by (rule line_sublist_join) simp
  ultimately have "sublist (strip p) (join_newline (seen @ p # ps))" by (rule sublist_trans)
  with True show ?thesis by (simp only: strip_newline_start)
next
  case False
  with assms have seen: "seen \<noteq> []" and suf: "suffix cur (join_newline seen)" by simp_all
  have j: "join_newline (seen @ [p]) = join_newline seen @ [CHR 0x0A] @ p"
    using seen by (simp add: join_newline_snoc)
  from suf have "suffix (cur @ [CHR 0x0A] @ p) (join_newline (seen @ [p]))"
    by (simp add: j)
  moreover have "prefix (join_newline (seen @ [p])) (join_newline ((seen @ [p]) @ ps))"
    by (rule prefix_join_newline)
  ultimately have "sublist (cur @ [CHR 0x0A] @ p) (join_newline ((seen @ [p]) @ ps))"
    unfolding sublist_altdef by blast
  then have "sublist (cur @ [CHR 0x0A] @ p) (join_newline (seen @ p # ps))" by simp
  with strip_sublist show ?thesis by (rule sublist_trans)
qed

lemma chunk_loop_returns:
  assumes "accepts tk (join_newline (seen @ ps))"
    and "cur = [] \<or> (seen \<noteq> [] \<and> suffix cur (join_newline seen))"
  shows "\<exists>r. chunk_loop tk N chunks cur ps = Inr r"
  using assms
proof (induction ps arbitrary: seen chunks cur)
  case Nil
  show ?case by simp
next
  case (Cons p ps)
  from accepts_sublist [OF Cons.prems(1) candidate_sublist [OF Cons.prems(2)]]
  obtain n where n: "count_tokens tk (strip (cur @ [CHR 0x0A] @ p)) MODEL_NAME = Inr n"
    by blast
  have acc: "accepts tk (join_newline ((seen @ [p]) @ ps))"
    using Cons.prems(1) by simp
  have "suffix p (join_newline (seen @ [p]))"
    by (cases "seen = []") (simp_all add: join_newline_snoc suffix_def)
  then have fresh: "p = [] \<or> (seen @ [p] \<noteq> [] \<and> suffix p (join_newline (seen @ [p])))"
    by simp
  consider (push) "n > N" "cur \<noteq> []" | (start) "cur = []" | (grow) "\<not> n > N" "cur \<noteq> []"
    by blast
  then show ?case
  proof cases
    case push
    from Cons.IH [OF acc fresh, of "chunks @ [cur]"] push n show ?thesis
      by simp
  next
    case start
    from Cons.IH [OF acc fresh, of chunks] start n show ?thesis
      by simp
  next
    case grow
    with Cons.prems(2) have seen: "seen \<noteq> []" and suf: "suffix cur (join_newline seen)"
      by simp_all
    have "suffix (cur @ [CHR 0x0A] @ p) (join_newline (seen @ [p]))"
      using seen suf by (simp add: join_newline_snoc)
    then have "cur @ [CHR 0x0A] @ p = [] \<or>
        (seen @ [p] \<noteq> [] \<and> suffix (cur @ [CHR 0x0A] @ p) (join_newline (seen @ [p])))"
      by simp
    from Cons.IH [OF acc this, of chunks] grow n show ?thesis
      by simp
  qed
qed

lemma chunk_text_returns:
  assumes "accepts tk txt"
  shows "\<exists>chunks cur. chunk_loop tk N [] [] (split_newline txt) = Inr (chunks, cur)"
proof -
  have "accepts tk (join_newline ([] @ split_newline txt))"
    using assms by (simp add: join_split_newline)
  from chunk_loop_returns [OF this, of "[]" N "[]"] show ?thesis by auto
qed

text \<open>Every chunk is within the budget or is a line.\<close>

lemma chunk_loop_budget_or_line:
  assumes "chunk_loop tk N chunks cur ps = Inr (chunks', cur')"
    and "\<forall>c\<in>set chunks. within_budget tk N c \<or> c \<in> L"
    and "cur = [] \<or> within_budget tk N cur \<or> cur \<in> L"
    and "set ps \<subseteq> L"
  shows "(\<forall>c\<in>set chunks'. within_budget tk N c \<or> c \<in> L) \<and>
         (cur' = [] \<or> within_budget tk N cur' \<or> cur' \<in> L)"
  using assms
proof (induction ps arbitrary: chunks cur)
  case Nil
  then show ?case by simp
next
  case (Cons p ps)
  from chunk_loop_Cons_counts [OF Cons.prems(1)]
  obtain n where n: "count_tokens tk (strip (cur @ [CHR 0x0A] @ p)) MODEL_NAME = Inr n"
    by blast
  from Cons.prems(4) have p: "p = [] \<or> within_budget tk N p \<or> p \<in> L"
    and ps: "set ps \<subseteq> L" by simp_all
  consider (push) "n > N" "cur \<noteq> []" | (start) "cur = []" | (grow) "\<not> n > N" "cur \<noteq> []"
    by blast
  then show ?case
  proof cases
    case push
    then have step: "chunk_loop tk N (chunks @ [cur]) p ps = Inr (chunks', cur')"
      using Cons.prems(1) n by simp
    have "\<forall>c\<in>set (chunks @ [cur]). within_budget tk N c \<or> c \<in> L"
      using Cons.prems(2,3) push(2) by auto
    from Cons.IH [OF step this p ps] show ?thesis .
  next
    case start
    then have step: "chunk_loop tk N chunks p ps = Inr (chunks', cur')"
      using Cons.prems(1) n by simp
    from Cons.IH [OF step Cons.prems(2) p ps] show ?thesis .
  next
    case grow
    then have step: "chunk_loop tk N chunks (cur @ [CHR 0x0A] @ p) ps = Inr (chunks', cur')"
      using Cons.prems(1) n by simp
    have "within_budget tk N (cur @ [CHR 0x0A] @ p)"
      using n grow(1) by (simp add: within_budget_def)
    then have "cur @ [CHR 0x0A] @ p = [] \<or> within_budget tk N (cur @ [CHR 0x0A] @ p) \<or>
        cur @ [CHR 0x0A] @ p \<in> L" by simp
    from Cons.IH [OF step Cons.prems(2) this ps] show ?thesis .
  qed
qed

text \<open>The round trip.\<close>

lemma flat_inv_step_start:
  assumes "flat_inv tk N seen chunks []" and "within_budget tk N p"
  shows "flat_inv tk N (seen @ [p]) chunks p"
proof -
  from assms(1) have c: "chunks = []" and blank: "\<forall>l\<in>set seen. l = []"
    by (auto simp: flat_inv_def)
  show ?thesis
  proof (cases "p = []")
    case True
    with c blank show ?thesis by (simp add: flat_inv_def)
  next
    case False
    from blank have "dropWhile (\<lambda>l. l = []) (seen @ [p]) = dropWhile (\<lambda>l. l = []) [p]"
      by (simp add: dropWhile_append)
    with False c assms(2) show ?thesis by (simp add: flat_inv_def)
  qed
qed

lemma flat_inv_seen:
  assumes "flat_inv tk N seen chunks cur" and "cur \<noteq> []"
  shows "dropWhile (\<lambda>l. l = []) (seen @ [p]) = dropWhile (\<lambda>l. l = []) seen @ [p]"
proof -
  from assms have "join_newline (dropWhile (\<lambda>l. l = []) seen) \<noteq> []"
    using join_newline_snoc_not_Nil [OF assms(2), of chunks] by (auto simp: flat_inv_def)
  then have "\<exists>x\<in>set seen. x \<noteq> []" by (rule seen_nonblank)
  then obtain x where "x \<in> set seen" and "\<not> x = []" by blast
  then show ?thesis by (rule dropWhile_append1)
qed

lemma flat_inv_step_push:
  assumes inv: "flat_inv tk N seen chunks cur" and ne: "cur \<noteq> []"
    and n: "count_tokens tk (strip (cur @ [CHR 0x0A] @ p)) MODEL_NAME = Inr n"
    and over: "n > N"
    and p: "within_budget tk N p"
  shows "flat_inv tk N (seen @ [p]) (chunks @ [cur]) p"
proof -
  from inv ne have cur: "within_budget tk N cur"
    and flat: "join_newline (chunks @ [cur]) = join_newline (dropWhile (\<lambda>l. l = []) seen)"
    by (auto simp: flat_inv_def)
  have pne: "p \<noteq> []"
  proof
    assume "p = []"
    with n have "count_tokens tk (strip cur) MODEL_NAME = Inr n" by (simp only: strip_newline_end)
    with cur over show False by (simp add: within_budget_def)
  qed
  have d: "dropWhile (\<lambda>l. l = []) seen \<noteq> []"
    using flat join_newline_snoc_not_Nil [OF ne, of chunks] by (cases "dropWhile (\<lambda>l. l = []) seen") simp_all
  have "join_newline ((chunks @ [cur]) @ [p]) = join_newline (chunks @ [cur]) @ [CHR 0x0A] @ p"
    by (simp only: join_newline_snoc) simp
  also have "\<dots> = join_newline (dropWhile (\<lambda>l. l = []) seen) @ [CHR 0x0A] @ p"
    by (simp only: flat)
  also have "\<dots> = join_newline (dropWhile (\<lambda>l. l = []) seen @ [p])"
    using d by (simp add: join_newline_snoc)
  finally have "join_newline ((chunks @ [cur]) @ [p]) = join_newline (dropWhile (\<lambda>l. l = []) (seen @ [p]))"
    by (simp only: flat_inv_seen [OF inv ne])
  with pne p show ?thesis by (simp add: flat_inv_def)
qed

lemma flat_inv_step_grow:
  assumes inv: "flat_inv tk N seen chunks cur" and ne: "cur \<noteq> []"
    and n: "count_tokens tk (strip (cur @ [CHR 0x0A] @ p)) MODEL_NAME = Inr n"
    and fits: "\<not> n > N"
  shows "flat_inv tk N (seen @ [p]) chunks (cur @ [CHR 0x0A] @ p)"
proof -
  from inv ne have flat: "join_newline (chunks @ [cur]) = join_newline (dropWhile (\<lambda>l. l = []) seen)"
    by (auto simp: flat_inv_def)
  have d: "dropWhile (\<lambda>l. l = []) seen \<noteq> []"
    using flat join_newline_snoc_not_Nil [OF ne, of chunks] by (cases "dropWhile (\<lambda>l. l = []) seen") simp_all
  have "join_newline (chunks @ [cur @ [CHR 0x0A] @ p]) = join_newline (chunks @ [cur]) @ [CHR 0x0A] @ p"
    by (rule join_newline_last_append)
  also have "\<dots> = join_newline (dropWhile (\<lambda>l. l = []) seen) @ [CHR 0x0A] @ p"
    by (simp only: flat)
  also have "\<dots> = join_newline (dropWhile (\<lambda>l. l = []) seen @ [p])"
    using d by (simp add: join_newline_snoc)
  finally have "join_newline (chunks @ [cur @ [CHR 0x0A] @ p]) = join_newline (dropWhile (\<lambda>l. l = []) (seen @ [p]))"
    by (simp only: flat_inv_seen [OF inv ne])
  moreover have "within_budget tk N (cur @ [CHR 0x0A] @ p)"
    using n fits by (simp add: within_budget_def)
  ultimately show ?thesis by (simp add: flat_inv_def)
qed

lemma chunk_loop_flat_inv:
  assumes "\<forall>p\<in>set ps. within_budget tk N p"
    and "flat_inv tk N seen chunks cur"
    and "chunk_loop tk N chunks cur ps = Inr (chunks', cur')"
  shows "flat_inv tk N (seen @ ps) chunks' cur'"
  using assms
proof (induction ps arbitrary: seen chunks cur)
  case Nil
  then show ?case by simp
next
  case (Cons p ps)
  from chunk_loop_Cons_counts [OF Cons.prems(3)]
  obtain n where n: "count_tokens tk (strip (cur @ [CHR 0x0A] @ p)) MODEL_NAME = Inr n"
    by blast
  from Cons.prems(1) have p: "within_budget tk N p"
    and ps: "\<forall>p\<in>set ps. within_budget tk N p" by simp_all
  consider (push) "n > N" "cur \<noteq> []" | (start) "cur = []" | (grow) "\<not> n > N" "cur \<noteq> []"
    by blast
  then have "flat_inv tk N ((seen @ [p]) @ ps) chunks' cur'"
  proof cases
    case push
    then have step: "chunk_loop tk N (chunks @ [cur]) p ps = Inr (chunks', cur')"
      using Cons.prems(3) n by simp
    from Cons.IH [OF ps flat_inv_step_push [OF Cons.prems(2) push(2) n push(1) p] step]
    show ?thesis .
  next
    case start
    then have step: "chunk_loop tk N chunks p ps = Inr (chunks', cur')"
      using Cons.prems(3) n by simp
    from Cons.prems(2) start have "flat_inv tk N seen chunks []" by simp
    from Cons.IH [OF ps flat_inv_step_start [OF this p] step] show ?thesis .
  next
    case grow
    then have step: "chunk_loop tk N chunks (cur @ [CHR 0x0A] @ p) ps = Inr (chunks', cur')"
      using Cons.prems(3) n by simp
    from Cons.IH [OF ps flat_inv_step_grow [OF Cons.prems(2) grow(2) n grow(1)] step]
    show ?thesis .
  qed
  then show ?case by simp
qed

text \<open>A single line.\<close>

lemma chunk_loop_single_line:
  "chunk_loop tk N [] [] [txt] =
     (case count_tokens tk (strip txt) MODEL_NAME of
        Inl err \<Rightarrow> Inl err
      | Inr n \<Rightarrow> Inr ([], txt))"
proof -
  have "strip ([] @ [CHR 0x0A] @ txt) = strip txt" by (rule strip_newline_start)
  then show ?thesis by (simp split: sum.splits)
qed

lemma chunk_text_single_line_raises:
  assumes "CHR 0x0A \<notin> set txt" and "count_tokens tk (strip txt) MODEL_NAME = Inl err"
  shows "chunk_text tk txt N = Inl err"
  by (simp only: chunk_text_def split_newline_single [OF assms(1)] chunk_loop_single_line assms(2))
    simp

section \<open>Facts about the handlers\<close>

lemma add_user_message_list:
  "add_user_message (JArr xs) c = Inr (JArr (xs @ [message ''user'' c]))"
  by (simp add: add_user_message_def)

lemma add_chunk_messages_enumerate:
  "add_chunk_messages fp idx cs (JArr xs) =
     (JArr (xs @ map (\<lambda>(i, chunk). message ''user'' (chunk_msg fp i chunk)) (enumerate idx cs)), None)"
  by (induction cs arbitrary: idx xs) (simp_all add: add_user_message_list)

lemma add_chunk_messages_list:
  "add_chunk_messages fp 1 cs (JArr xs) = (JArr (xs @ part_messages fp cs), None)"
  by (simp only: add_chunk_messages_enumerate part_messages_def)

lemma ingest_files_those:
  assumes "those (map (file_messages e) fps) = Some mss"
  shows "ingest_files e fps (JArr xs) = (JArr (xs @ concat mss), None)"
  using assms
proof (induction fps arbitrary: xs mss)
  case Nil
  then show ?case by simp
next
  case (Cons fp fps)
  from Cons.prems obtain ms rest where ms: "file_messages e fp = Some ms"
    and rest: "those (map (file_messages e) fps) = Some rest" and mss: "mss = ms # rest"
    by (auto split: option.splits)
  from ms obtain code_content code_chunks where rd: "read_file e fp = Some code_content"
    and ch: "chunk_text (tiktoken e) code_content CHUNK_SIZE = Inr code_chunks"
    and parts: "ms = part_messages fp code_chunks"
    by (auto simp: file_messages_def split: option.splits sum.splits)
  have "ingest_files e (fp # fps) (JArr xs) = ingest_files e fps (JArr (xs @ ms))"
    by (simp add: rd ch add_chunk_messages_list parts del: One_nat_def)
  also have "\<dots> = (JArr ((xs @ ms) @ concat rest), None)"
    by (rule Cons.IH [OF rest])
  finally show ?case by (simp add: mss)
qed

lemma ingest_files_fails:
  assumes "those (map (file_messages e) fps) = None"
  shows "\<exists>h err. ingest_files e fps (JArr xs) = (h, Some err)"
  using assms
proof (induction fps arbitrary: xs)
  case Nil
  then show ?case by simp
next
  case (Cons fp fps)
  show ?case
  proof (cases "file_messages e fp")
    case None
    then show ?thesis
      by (auto simp: file_messages_def split: option.splits sum.splits)
  next
    case (Some ms)
    then obtain code_content code_chunks where rd: "read_file e fp = Some code_content"
      and ch: "chunk_text (tiktoken e) code_content CHUNK_SIZE = Inr code_chunks"
      and parts: "ms = part_messages fp code_chunks"
      by (auto simp: file_messages_def split: option.splits sum.splits)
    from Some Cons.prems have "those (map (file_messages e) fps) = None"
      by (auto split: option.splits)
    from Cons.IH [OF this, of "xs @ ms"] obtain h err where
      "ingest_files e fps (JArr (xs @ ms)) = (h, Some err)" by blast
    then have "ingest_files e (fp # fps) (JArr xs) = (h, Some err)"
      by (simp add: rd ch add_chunk_messages_list parts del: One_nat_def)
    then show ?thesis by blast
  qed
qed

lemma those_map_Some:
  assumes "\<forall>x\<in>set xs. \<exists>y. f x = Some y"
  shows "\<exists>ys. those (map f xs) = Some ys"
  using assms by (induction xs) auto

lemma file_messages_readable:
  assumes "read_file e fp = Some code_content" and "accepts (tiktoken e) code_content"
  shows "\<exists>ms. file_messages e fp = Some ms"
proof -
  from chunk_text_returns [OF assms(2), of CHUNK_SIZE] obtain chunks cur where
    "chunk_loop (tiktoken e) CHUNK_SIZE [] [] (split_newline code_content) = Inr (chunks, cur)"
    by blast
  then have "\<exists>cs. chunk_text (tiktoken e) code_content CHUNK_SIZE = Inr cs"
    by (simp add: chunk_text_def)
  with assms(1) show ?thesis by (auto simp: file_messages_def)
qed

lemma append_prompt_list:
  "append_prompt (JArr xs) u = Inr (JArr (xs @ (if u \<noteq> [] then [message ''user'' u] else [])))"
  by (simp add: append_prompt_def add_user_message_list)

lemma append_prompt_messages:
  "append_prompt (JArr xs) (strip p) = Inr (JArr (xs @ prompt_messages p))"
  by (simp add: append_prompt_list prompt_messages_def)

lemma complete_turn_list:
  "snd (complete_turn e (JArr xs)) = JArr (xs @ reply_messages e (JArr xs))"
  by (cases "send_chat_completion e (JArr xs)")
    (simp_all add: complete_turn_def reply_messages_def add_assistant_message_def)

text \<open>The handler once ingestion and the prompt succeeded.\<close>

lemma send_event_accepted:
  assumes "\<not> (strip p = [] \<and> loaded_files st = [])"
    and "ingest_files e (loaded_files st) (conversation_history st) = (h1, None)"
    and "append_prompt h1 (strip p) = Inr h2"
  shows "send_event e st p =
     Continue (st\<lparr>conversation_history := snd (complete_turn e h2),
                  loaded_files := [], files_box := [],
                  api_calls := api_calls st @ [chat_request h2],
                  response_box := fst (complete_turn e h2),
                  disk := save_history (disk st) HISTORY_JSON_PATH (snd (complete_turn e h2)),
                  prompt_box := []\<rparr>)"
proof -
  obtain answer h3 where turn: "complete_turn e h2 = (answer, h3)"
    by (cases "complete_turn e h2")
  from assms(1) have "\<not> (strip p = [] \<and> loaded_files st = [])" .
  with assms(2,3) turn show ?thesis
    by (auto simp: send_event_def Let_def)
qed

lemma send_event_rejected:
  assumes "strip p = []" and "loaded_files st = []"
  shows "send_event e st p =
     Continue (st\<lparr>popups := popups st @ [''Please either enter a prompt or load files to send.'']\<rparr>)"
  using assms by (simp add: send_event_def)

text \<open>The handler when reading or chunking a selected file raises.\<close>

lemma send_event_read_failure:
  assumes "\<not> (strip p = [] \<and> loaded_files st = [])"
    and "ingest_files e (loaded_files st) (conversation_history st) = (h1, Some err)"
  shows "send_event e st p = Crash err (st\<lparr>conversation_history := h1\<rparr>)"
  using assms by (auto simp: send_event_def Let_def)

text \<open>The handler on a history that is a list, when every file is read and chunked.\<close>

lemma send_event_turn:
  assumes acc: "\<not> (strip p = [] \<and> loaded_files st = [])"
    and hist: "conversation_history st = JArr xs"
    and turn: "turn_messages e (loaded_files st) p = Some ms"
  shows "send_event e st p =
     Continue (st\<lparr>conversation_history := JArr (xs @ ms @ reply_messages e (JArr (xs @ ms))),
                  loaded_files := [], files_box := [],
                  api_calls := api_calls st @ [chat_request (JArr (xs @ ms))],
                  response_box := fst (complete_turn e (JArr (xs @ ms))),
                  disk := save_history (disk st) HISTORY_JSON_PATH
                    (JArr (xs @ ms @ reply_messages e (JArr (xs @ ms)))),
                  prompt_box := []\<rparr>)"
proof -
  from turn obtain mss where mss: "those (map (file_messages e) (loaded_files st)) = Some mss"
    and ms: "ms = concat mss @ prompt_messages p"
    by (auto simp: turn_messages_def)
  have ing: "ingest_files e (loaded_files st) (conversation_history st)
      = (JArr (xs @ concat mss), None)"
    by (simp only: hist ingest_files_those [OF mss])
  have pr: "append_prompt (JArr (xs @ concat mss)) (strip p) = Inr (JArr (xs @ ms))"
    by (simp add: append_prompt_messages ms)
  have "snd (complete_turn e (JArr (xs @ ms))) = JArr (xs @ ms @ reply_messages e (JArr (xs @ ms)))"
    using complete_turn_list [of e "xs @ ms"] by simp
  with send_event_accepted [OF acc ing pr] show ?thesis by simp
qed

lemma send_event_Continue_turn:
  assumes acc: "\<not> (strip p = [] \<and> loaded_files st = [])"
    and hist: "conversation_history st = JArr xs"
    and ret: "send_event e st p = Continue st'"
  shows "\<exists>ms. turn_messages e (loaded_files st) p = Some ms"
proof (cases "those (map (file_messages e) (loaded_files st))")
  case None
  from ingest_files_fails [OF this, of xs] obtain h err where
    "ingest_files e (loaded_files st) (conversation_history st) = (h, Some err)"
    by (auto simp: hist)
  from send_event_read_failure [OF acc this] ret show ?thesis by simp
next
  case (Some mss)
  then show ?thesis by (simp add: turn_messages_def)
qed

section \<open>The chunker's properties\<close>

text \<open>
  C2 (as amended). For every text that the tokenizer accepts and every budget such that
  every line of the text, stripped, is within the budget, \<open>chunk_text\<close> returns, and joining
  its chunks with line feeds gives back the text up to leading and trailing whitespace:
  both sides are equal once stripped.
\<close>

theorem chunk_text_roundtrip:
  assumes "accepts tk txt"
    and "\<forall>l\<in>set (split_newline txt). within_budget tk N l"
  shows "\<exists>chunks. chunk_text tk txt N = Inr chunks \<and>
           strip (join_newline chunks) = strip txt"
proof -
  obtain chunks cur where loop: "chunk_loop tk N [] [] (split_newline txt) = Inr (chunks, cur)"
    using chunk_text_returns [OF assms(1)] by blast
  have "flat_inv tk N [] [] []" by (simp add: flat_inv_def)
  from chunk_loop_flat_inv [OF assms(2) this loop]
  have inv: "flat_inv tk N (split_newline txt) chunks cur" by simp
  have res: "chunk_text tk txt N = Inr (if strip cur \<noteq> [] then chunks @ [cur] else chunks)"
    by (simp add: chunk_text_def loop)
  have "strip (join_newline (if strip cur \<noteq> [] then chunks @ [cur] else chunks)) = strip txt"
  proof (cases "cur = []")
    case True
    with inv have "chunks = []" and "\<forall>l\<in>set (split_newline txt). l = []"
      by (auto simp: flat_inv_def)
    then have "\<forall>c\<in>set (join_newline (split_newline txt)). isspace c"
      using join_newline_blank by blast
    then have "\<forall>c\<in>set txt. isspace c" by (simp only: join_split_newline)
    then have "strip txt = []" by (simp only: strip_eq_Nil)
    with True \<open>chunks = []\<close> show ?thesis by (simp add: strip_Nil)
  next
    case False
    with inv have flat: "join_newline (chunks @ [cur]) = join_newline (dropWhile (\<lambda>l. l = []) (split_newline txt))"
      by (auto simp: flat_inv_def)
    obtain pre where pre: "\<forall>c\<in>set pre. isspace c"
      "join_newline (split_newline txt) = pre @ join_newline (dropWhile (\<lambda>l. l = []) (split_newline txt))"
      using join_newline_leading_blank by blast
    have "strip txt = strip (pre @ join_newline (dropWhile (\<lambda>l. l = []) (split_newline txt)))"
      using pre(2) by (simp only: join_split_newline)
    also have "\<dots> = strip (join_newline (dropWhile (\<lambda>l. l = []) (split_newline txt)))"
      by (rule strip_prefix [OF pre(1)])
    finally have orig: "strip txt = strip (join_newline (chunks @ [cur]))"
      by (simp only: flat)
    show ?thesis
    proof (cases "strip cur = []")
      case False
      then show ?thesis by (simp add: orig)
    next
      case True
      then have sp: "\<forall>c\<in>set cur. isspace c" by (simp only: strip_eq_Nil)
      have "strip (join_newline (chunks @ [cur])) = strip (join_newline chunks)"
      proof (cases "chunks = []")
        case True
        with \<open>strip cur = []\<close> show ?thesis by (simp add: strip_Nil)
      next
        case False
        have "\<forall>c\<in>set (CHR 0x0A # cur). isspace c" using sp by (simp add: isspace_newline)
        from strip_suffix [OF this, of "join_newline chunks"] False
        show ?thesis by (simp add: join_newline_snoc)
      qed
      with True show ?thesis by (simp add: orig)
    qed
  qed
  with res show ?thesis by blast
qed

text \<open>
  The amended C2 at a text with leading spaces and a final line feed, split into two
  chunks.
\<close>

theorem chunk_text_roundtrip_witness:
  "chunk_text char_tiktoken ''  ab\<newline>cd\<newline>'' 4 = Inr [''  ab'', ''cd\<newline>''] \<and>
   strip (join_newline [''  ab'', ''cd\<newline>'']) = strip ''  ab\<newline>cd\<newline>''"
proof -
  have h: "\<forall>l\<in>set (split_newline ''  ab\<newline>cd\<newline>''). within_budget char_tiktoken 4 l"
    by code_simp
  have c: "chunk_text char_tiktoken ''  ab\<newline>cd\<newline>'' 4 = Inr [''  ab'', ''cd\<newline>'']"
    by code_simp
  from chunk_text_roundtrip [OF accepts_char h] c show ?thesis by simp
qed

text \<open>
  C2 as stated fails: for the text made of an empty line and the line \<open>" a"\<close>, the joined
  chunks are \<open>" a"\<close>, which is neither the stripped text \<open>"a"\<close> nor the text itself. The
  chunker gives this result with every tokenizer that counts the tokens of \<open>""\<close> and \<open>"a"\<close>,
  and every budget (\<open>chunk_text_leading_blank_any\<close>).
\<close>

theorem chunk_text_roundtrip_counterexample:
  "chunk_text char_tiktoken ''\<newline> a'' CHUNK_SIZE = Inr ['' a''] \<and>
   join_newline ['' a''] \<noteq> strip ''\<newline> a'' \<and>
   join_newline ['' a''] \<noteq> ''\<newline> a''"
  by code_simp

lemma chunk_text_leading_blank_any:
  assumes "count_tokens tk [] MODEL_NAME = Inr m" and "count_tokens tk ''a'' MODEL_NAME = Inr n"
  shows "chunk_text tk ''\<newline> a'' N = Inr ['' a'']"
proof -
  have s: "strip '' a'' \<noteq> []" "strip ''\<newline>'' = []" "strip ''\<newline> a'' = ''a''" by code_simp+
  with assms show ?thesis by (simp add: chunk_text_def)
qed

text \<open>
  C5 (as amended). For every text that the tokenizer accepts, \<open>chunk_text\<close> returns, and
  every chunk is within the budget once stripped, or is exactly one line of the text whose
  own stripped token count exceeds the budget. So when every line, stripped, is within the
  budget, every chunk, stripped, is within the budget. (The budget is checked on the
  stripped candidate, and the chunk is stored unstripped.)
\<close>

theorem chunk_text_budget:
  assumes "accepts tk txt"
  shows "\<exists>chunks. chunk_text tk txt N = Inr chunks \<and>
           (\<forall>c\<in>set chunks. within_budget tk N c \<or>
                             (c \<in> set (split_newline txt) \<and> over_budget tk N c)) \<and>
           ((\<forall>l\<in>set (split_newline txt). within_budget tk N l) \<longrightarrow>
              (\<forall>c\<in>set chunks. within_budget tk N c))"
proof -
  let ?L = "set (split_newline txt)"
  obtain chunks cur where loop: "chunk_loop tk N [] [] (split_newline txt) = Inr (chunks, cur)"
    using chunk_text_returns [OF assms] by blast
  have inv: "(\<forall>c\<in>set chunks. within_budget tk N c \<or> c \<in> ?L) \<and>
         (cur = [] \<or> within_budget tk N cur \<or> cur \<in> ?L)"
    by (rule chunk_loop_budget_or_line [OF loop]) simp_all
  let ?res = "if strip cur \<noteq> [] then chunks @ [cur] else chunks"
  have res: "chunk_text tk txt N = Inr ?res"
    by (simp add: chunk_text_def loop)
  have line: "within_budget tk N c \<or> c \<in> ?L" if "c \<in> set ?res" for c
  proof (cases "c = cur \<and> strip cur \<noteq> []")
    case True
    then have "cur \<noteq> []" by (auto simp: strip_Nil)
    with inv True show ?thesis by blast
  next
    case False
    with that have "c \<in> set chunks" by (auto split: if_splits)
    with inv show ?thesis by blast
  qed
  have over: "within_budget tk N c \<or> (c \<in> ?L \<and> over_budget tk N c)" if "c \<in> set ?res" for c
  proof (cases "within_budget tk N c")
    case True
    then show ?thesis by simp
  next
    case False
    with line [OF that] have l: "c \<in> ?L" by simp
    then have "sublist c (join_newline (split_newline txt))" by (rule line_sublist_join)
    then have "sublist c txt" by (simp only: join_split_newline)
    from within_or_over [OF assms this, of N] False l show ?thesis by simp
  qed
  have all: "\<forall>c\<in>set ?res. within_budget tk N c"
    if "\<forall>l\<in>?L. within_budget tk N l"
    using that line by blast
  from res over all show ?thesis by blast
qed

text \<open>
  The amended C5 at a text whose first line is over the budget: the first chunk is that
  line, and the second, of two lines, is within the budget.
\<close>

theorem chunk_text_budget_witness:
  "chunk_text char_tiktoken ''abcdef\<newline>g\<newline>h'' 4 = Inr [''abcdef'', ''g\<newline>h''] \<and>
   ''abcdef'' \<in> set (split_newline ''abcdef\<newline>g\<newline>h'') \<and>
   over_budget char_tiktoken 4 ''abcdef'' \<and>
   within_budget char_tiktoken 4 ''g\<newline>h''"
proof -
  have c: "chunk_text char_tiktoken ''abcdef\<newline>g\<newline>h'' 4 = Inr [''abcdef'', ''g\<newline>h'']"
    by code_simp
  have o: "\<not> within_budget char_tiktoken 4 ''abcdef''" by code_simp
  from chunk_text_budget [OF accepts_char, of "''abcdef\<newline>g\<newline>h''" 4] c o
  show ?thesis by auto
qed

text \<open>
  C5 as stated fails: with one token per character and a budget of 1, the lines of
  \<open>"a\n"\<close> are \<open>"a"\<close> and \<open>""\<close>, both within the budget, and the only chunk is \<open>"a\n"\<close>, of two
  tokens.
\<close>

theorem chunk_text_budget_counterexample:
  "split_newline ''a\<newline>'' = [''a'', []] \<and>
   count_tokens char_tiktoken ''a'' MODEL_NAME = Inr 1 \<and>
   count_tokens char_tiktoken [] MODEL_NAME = Inr 0 \<and>
   chunk_text char_tiktoken ''a\<newline>'' 1 = Inr [''a\<newline>''] \<and>
   count_tokens char_tiktoken ''a\<newline>'' MODEL_NAME = Inr 2"
  by code_simp

text \<open>
  C8 (as amended). For every input consisting of a single line (no line feed) whose
  stripped form the tokenizer counts, whatever the count, \<open>chunk_text\<close> returns exactly one
  chunk, equal to the line, when the line has a character that is not whitespace, and no
  chunk when it has none.
\<close>

theorem chunk_text_single_line:
  assumes "CHR 0x0A \<notin> set txt"
    and "count_tokens tk (strip txt) MODEL_NAME = Inr n"
  shows "chunk_text tk txt N = Inr (if strip txt = [] then [] else [txt])"
  by (simp only: chunk_text_def split_newline_single [OF assms(1)] chunk_loop_single_line assms(2))
    simp

text \<open>The amended C8 at a line of 17 tokens with a budget of 3.\<close>

theorem chunk_text_single_line_witness:
  "CHR 0x0A \<notin> set ''x = compute(1, 2)'' \<and>
   count_tokens char_tiktoken (strip ''x = compute(1, 2)'') MODEL_NAME = Inr 17 \<and>
   chunk_text char_tiktoken ''x = compute(1, 2)'' 3 = Inr [''x = compute(1, 2)'']"
proof -
  have h: "CHR 0x0A \<notin> set ''x = compute(1, 2)''" by simp
  have s: "strip ''x = compute(1, 2)'' \<noteq> []" by code_simp
  have c: "count_tokens char_tiktoken (strip ''x = compute(1, 2)'') MODEL_NAME = Inr 17"
    by code_simp
  from chunk_text_single_line [OF h c, of 3] s h c show ?thesis by simp
qed

text \<open>
  C8 as stated fails on a line of whitespace that is over the budget: the final test
  \<open>if current_chunk.strip()\<close> drops it, and no chunk is returned. A line of 20000 spaces
  has more than one token under every tokenizer whose tokens are shorter than 20000
  characters, and with a budget of 1 the chunker returns no chunk for it; a line of one
  space has at least one token under every tokenizer, and with a budget of 0 the chunker
  returns no chunk for it.
\<close>

theorem chunk_text_single_line_counterexample:
  "CHR 0x0A \<notin> set (replicate 20000 (CHR '' '')) \<and>
   count_tokens char_tiktoken (replicate 20000 (CHR '' '')) MODEL_NAME = Inr 20000 \<and>
   chunk_text char_tiktoken (replicate 20000 (CHR '' '')) 1 = Inr [] \<and>
   count_tokens char_tiktoken '' '' MODEL_NAME = Inr 1 \<and>
   chunk_text char_tiktoken '' '' 0 = Inr []"
proof -
  have blank: "chunk_text char_tiktoken (replicate k (CHR '' '')) N = Inr []" for k N
  proof -
    have nl: "CHR 0x0A \<notin> set (replicate k (CHR '' ''))" by (cases k) simp_all
    have "\<forall>c\<in>set (replicate k (CHR '' '')). isspace c"
      by (cases k) (simp_all add: isspace_def)
    then have s: "strip (replicate k (CHR '' '')) = []" by (simp only: strip_eq_Nil)
    have cnt: "count_tokens char_tiktoken (strip (replicate k (CHR '' ''))) MODEL_NAME = Inr 0"
      by (simp only: s count_tokens_char) simp
    have loop: "chunk_loop char_tiktoken N [] [] [replicate k (CHR '' '')]
        = Inr ([], replicate k (CHR '' ''))"
      unfolding chunk_loop_single_line cnt by simp
    show ?thesis
      unfolding chunk_text_def split_newline_single [OF nl] loop by (simp add: s)
  qed
  have a: "CHR 0x0A \<notin> set (replicate 20000 (CHR '' ''))"
    by (simp only: set_replicate_conv_if) simp
  have b: "count_tokens char_tiktoken (replicate 20000 (CHR '' '')) MODEL_NAME = Inr 20000"
    by (simp only: count_tokens_char length_replicate) simp
  have c: "chunk_text char_tiktoken (replicate 20000 (CHR '' '')) 1 = Inr []"
    by (rule blank)
  have d: "count_tokens char_tiktoken '' '' MODEL_NAME = Inr 1"
    by (simp add: count_tokens_char)
  have e: "chunk_text char_tiktoken '' '' 0 = Inr []"
    using blank [of 1 0] by simp
  from a b c d e show ?thesis by blast
qed

section \<open>The history store's properties\<close>

text \<open>
  C4 (as amended). \<open>load_or_init_history\<close> returns an empty history when no file exists at
  the path, and when the file is opened and \<open>json.load\<close> raises \<open>JSONDecodeError\<close> (its text
  is not a JSON document). When \<open>json.load\<close> returns a value, that value is returned as it
  is: nothing checks that it is a list of role/content records.
\<close>

theorem load_or_init_history_cases:
  "(fs p = None \<longrightarrow> load_or_init_history fs p = Inr (JArr [])) \<and>
   (fs p = Some (LoadRaises (JSONDecodeError d)) \<longrightarrow> load_or_init_history fs p = Inr (JArr [])) \<and>
   (fs p = Some (Loads v) \<longrightarrow> load_or_init_history fs p = Inr v)"
  by (simp add: load_or_init_history_def)

text \<open>The amended C4 with no history file, with a corrupt one and with a saved history.\<close>

theorem load_or_init_history_cases_witness:
  "load_or_init_history Map.empty HISTORY_JSON_PATH = Inr (JArr []) \<and>
   load_or_init_history [HISTORY_JSON_PATH \<mapsto> LoadRaises (JSONDecodeError HISTORY_JSON_PATH)]
     HISTORY_JSON_PATH = Inr (JArr []) \<and>
   load_or_init_history [HISTORY_JSON_PATH \<mapsto> Loads (JArr [message ''user'' ''Hello''])]
     HISTORY_JSON_PATH = Inr (JArr [message ''user'' ''Hello''])"
  using load_or_init_history_cases [of Map.empty HISTORY_JSON_PATH]
    load_or_init_history_cases
      [of "[HISTORY_JSON_PATH \<mapsto> LoadRaises (JSONDecodeError HISTORY_JSON_PATH)]"
        HISTORY_JSON_PATH HISTORY_JSON_PATH]
    load_or_init_history_cases
      [of "[HISTORY_JSON_PATH \<mapsto> Loads (JArr [message ''user'' ''Hello''])]"
        HISTORY_JSON_PATH _ "JArr [message ''user'' ''Hello'']"]
  by simp

text \<open>
  C4 as stated fails: a history file whose content is the JSON document \<open>42\<close> is not a list
  of role/content records, and the number 42 is returned, not an empty history; and a
  history file whose bytes are not UTF-8 makes the call raise \<open>UnicodeDecodeError\<close>.
\<close>

theorem load_or_init_history_counterexample:
  "load_or_init_history [HISTORY_JSON_PATH \<mapsto> Loads (JInt 42)] HISTORY_JSON_PATH = Inr (JInt 42) \<and>
   load_or_init_history [HISTORY_JSON_PATH \<mapsto> LoadRaises (UnicodeDecodeError HISTORY_JSON_PATH)]
     HISTORY_JSON_PATH = Inl (UnicodeDecodeError HISTORY_JSON_PATH)"
  by (simp add: load_or_init_history_def)

text \<open>
  The other exceptions leave the function as well: that of \<open>open\<close>, which stands before the
  \<open>try\<close>, and every exception of \<open>json.load\<close> that is not a \<open>JSONDecodeError\<close>.
\<close>

lemma load_or_init_history_raises:
  "load_or_init_history fs p = Inl err \<longleftrightarrow>
     fs p = Some (OpenRaises err) \<or> (fs p = Some (LoadRaises err) \<and> \<not> is_JSONDecodeError err)"
  by (auto simp: load_or_init_history_def split: option.splits stored.splits)

section \<open>The orchestrator's properties\<close>

text \<open>On a first run, with no history file, \<open>main\<close> primes the history and saves it.\<close>

lemma main_init_first_run: "main_init Map.empty = Continue fresh_state"
  by (simp add: main_init_def fresh_state_def load_or_init_history_def add_developer_message_def
      save_history_def)

text \<open>
  C1 (what the code does). After \<open>-CLEAR_CONVO-\<close>, a Send with a prompt that is not blank and
  no loaded files returns to the event loop having sent exactly one request, whose messages
  are the single user message: the handler does not add the developer message again, so
  the history sent does not begin with one.
\<close>

theorem clear_then_send_has_no_priming:
  assumes "strip p \<noteq> []" and "loaded_files st = []"
  shows "\<exists>st'. send_event e (clear_convo_event st) p = Continue st' \<and>
           api_calls st' = api_calls st @ [chat_request (JArr [message ''user'' (strip p)])]"
proof -
  let ?st = "clear_convo_event st"
  have acc: "\<not> (strip p = [] \<and> loaded_files ?st = [])" using assms(1) by simp
  have ing: "ingest_files e (loaded_files ?st) (conversation_history ?st) = (JArr [], None)"
    using assms(2) by (simp add: clear_convo_event_def)
  have pr: "append_prompt (JArr []) (strip p) = Inr (JArr [message ''user'' (strip p)])"
    using assms(1) by (simp add: append_prompt_list)
  from send_event_accepted [OF acc ing pr] show ?thesis
    by (simp add: clear_convo_event_def)
qed

text \<open>The first run, cleared, then a Send of \<open>"Hello"\<close>: the request holds one user message.\<close>

theorem clear_then_send_has_no_priming_witness:
  "strip ''Hello'' \<noteq> [] \<and> loaded_files fresh_state = [] \<and>
   (\<exists>st'. send_event polite_env (clear_convo_event fresh_state) ''Hello'' = Continue st' \<and>
      api_calls st' = [chat_request (JArr [message ''user'' ''Hello''])])"
proof -
  have h1: "strip ''Hello'' \<noteq> []" by code_simp
  have h2: "loaded_files fresh_state = []" by (simp add: fresh_state_def)
  have s: "strip ''Hello'' = ''Hello''" by code_simp
  have a: "api_calls fresh_state = []" by (simp add: fresh_state_def)
  from clear_then_send_has_no_priming [OF h1 h2, of polite_env] h1 h2 show ?thesis
    by (simp only: s a append_Nil) simp
qed

text \<open>
  C3 (as amended). For every Send in a state whose history is a list and whose loaded files
  can all be read and have contents that the tokenizer accepts, the handler returns to the
  event loop with the loaded-file list empty, whatever the completion call does.
\<close>

theorem send_clears_loaded_files:
  assumes "\<forall>fp\<in>set (loaded_files st).
             \<exists>code_content. read_file e fp = Some code_content \<and> accepts (tiktoken e) code_content"
    and "conversation_history st = JArr xs"
  shows "\<exists>st'. send_event e st p = Continue st' \<and> loaded_files st' = []"
proof (cases "strip p = [] \<and> loaded_files st = []")
  case True
  then show ?thesis by (simp add: send_event_rejected)
next
  case False
  from assms(1) have "\<forall>fp\<in>set (loaded_files st). \<exists>ms. file_messages e fp = Some ms"
    using file_messages_readable by blast
  from those_map_Some [OF this] obtain mss where
    "those (map (file_messages e) (loaded_files st)) = Some mss" by blast
  then have "turn_messages e (loaded_files st) p = Some (concat mss @ prompt_messages p)"
    by (simp add: turn_messages_def)
  from send_event_turn [OF False assms(2) this] show ?thesis by simp
qed

text \<open>The amended C3 with one readable file loaded and an endpoint that cannot be reached.\<close>

theorem send_clears_loaded_files_witness:
  "read_file (offline_env\<lparr>read_file := [''a.py'' \<mapsto> ''x = 1'']\<rparr>) ''a.py'' = Some ''x = 1'' \<and>
   (\<exists>st'. send_event (offline_env\<lparr>read_file := [''a.py'' \<mapsto> ''x = 1'']\<rparr>)
             (fresh_state\<lparr>loaded_files := [''a.py'']\<rparr>) [] = Continue st' \<and>
          loaded_files st' = [])"
proof -
  let ?e = "offline_env\<lparr>read_file := [''a.py'' \<mapsto> ''x = 1'']\<rparr>"
  let ?st = "fresh_state\<lparr>loaded_files := [''a.py'']\<rparr>"
  have "accepts (tiktoken ?e) ''x = 1''"
    by (simp add: offline_env_def accepts_char)
  then have h1: "\<forall>fp\<in>set (loaded_files ?st).
      \<exists>code_content. read_file ?e fp = Some code_content \<and> accepts (tiktoken ?e) code_content"
    by simp
  have h2: "conversation_history ?st = JArr [message ''developer'' initial_instructions]"
    by (simp add: fresh_state_def)
  from send_clears_loaded_files [OF h1 h2] show ?thesis by simp
qed

text \<open>
  C3 as stated fails: with \<open>a.py\<close> readable and \<open>gone.py\<close> not, the exception of the second
  read leaves the handler, and \<open>main\<close>, after the chunk of \<open>a.py\<close> was appended and before
  the statement that clears the list: both paths are still loaded at that point.
\<close>

theorem send_read_failure_counterexample:
  "send_event (offline_env\<lparr>read_file := [''a.py'' \<mapsto> ''x = 1'']\<rparr>)
       (fresh_state\<lparr>loaded_files := [''a.py'', ''gone.py'']\<rparr>) ''Review this''
     = Crash (FileReadError ''gone.py'')
         (fresh_state\<lparr>loaded_files := [''a.py'', ''gone.py''],
            conversation_history :=
              JArr [message ''developer'' initial_instructions,
                    message ''user'' ''[FILE: a.py, PART 1]\<newline>x = 1'']\<rparr>) \<and>
   loaded_files (fresh_state\<lparr>loaded_files := [''a.py'', ''gone.py'']\<rparr>) = [''a.py'', ''gone.py'']"
proof -
  have s: "strip ''Review this'' = ''Review this''" by code_simp
  have c: "chunk_text char_tiktoken ''x = 1'' CHUNK_SIZE = Inr [''x = 1'']" by code_simp
  have m: "chunk_msg ''a.py'' (Suc 0) ''x = 1'' = ''[FILE: a.py, PART 1]\<newline>x = 1''" by code_simp
  show ?thesis
    by (simp add: send_event_def s c m offline_env_def fresh_state_def add_user_message_def)
qed

text \<open>
  The same happens when a file is read and the tokenizer refuses its content: with a
  tokenizer that has the special token \<open><|endoftext|>\<close>, a file that holds it makes
  \<open>chunk_text\<close> raise \<open>ValueError\<close>, which leaves the handler with the file still loaded.
\<close>

lemma send_event_special_token:
  "send_event (offline_env\<lparr>tiktoken := guarded_tiktoken,
                            read_file := [''a.py'' \<mapsto> ''eot = <|endoftext|>'']\<rparr>)
       (fresh_state\<lparr>loaded_files := [''a.py'']\<rparr>) []
     = Crash (ValueError ''eot = <|endoftext|>'') (fresh_state\<lparr>loaded_files := [''a.py'']\<rparr>)"
proof -
  have c: "chunk_text guarded_tiktoken ''eot = <|endoftext|>'' CHUNK_SIZE
      = Inl (ValueError ''eot = <|endoftext|>'')" by code_simp
  show ?thesis
    by (simp add: send_event_def c offline_env_def fresh_state_def)
qed



text \<open>
  C7. Each of \<open>add_developer_message\<close>, \<open>add_user_message\<close> and \<open>add_assistant_message\<close> turns
  a history \<open>xs\<close> into \<open>xs\<close> followed by one message of its role; \<open>send_chat_completion\<close>
  passes the history it is given as the messages of the request, unchanged. A Send that is
  not rejected, from a history \<open>xs\<close>, for which the messages of the turn are \<open>ms\<close> (the
  chunk messages of the loaded files, then the prompt), returns to the event loop having
  sent exactly one more request, whose messages are \<open>xs\<close> followed by \<open>ms\<close>, and leaves the
  history \<open>xs\<close>, \<open>ms\<close>, then the assistant message of the reply when the call answered.
  Conversely, a Send that is not rejected and returns to the event loop has such messages
  \<open>ms\<close>, and has sent and kept exactly those.
\<close>

theorem history_append_only:
  "add_developer_message (JArr xs) c = Inr (JArr (xs @ [message ''developer'' c])) \<and>
   add_user_message (JArr xs) c = Inr (JArr (xs @ [message ''user'' c])) \<and>
   add_assistant_message (JArr xs) c = Inr (JArr (xs @ [message ''assistant'' c])) \<and>
   send_chat_completion e h = chat_completion e (chat_request h) \<and>
   messages (chat_request h) = h \<and>
   (conversation_history st = JArr xs \<and> \<not> (strip p = [] \<and> loaded_files st = []) \<and>
    turn_messages e (loaded_files st) p = Some ms \<longrightarrow>
      (\<exists>st1. send_event e st p = Continue st1 \<and>
         api_calls st1 = api_calls st @ [chat_request (JArr (xs @ ms))] \<and>
         conversation_history st1 = JArr (xs @ ms @ reply_messages e (JArr (xs @ ms))))) \<and>
   (conversation_history st = JArr xs \<and> \<not> (strip p = [] \<and> loaded_files st = []) \<and>
    send_event e st p = Continue st' \<longrightarrow>
      (\<exists>ms'. turn_messages e (loaded_files st) p = Some ms' \<and>
         api_calls st' = api_calls st @ [chat_request (JArr (xs @ ms'))] \<and>
         conversation_history st' = JArr (xs @ ms' @ reply_messages e (JArr (xs @ ms')))))"
proof -
  have adds: "add_developer_message (JArr xs) c = Inr (JArr (xs @ [message ''developer'' c]))"
    "add_user_message (JArr xs) c = Inr (JArr (xs @ [message ''user'' c]))"
    "add_assistant_message (JArr xs) c = Inr (JArr (xs @ [message ''assistant'' c]))"
    by (simp_all add: add_developer_message_def add_user_message_def add_assistant_message_def)
  have call: "send_chat_completion e h = chat_completion e (chat_request h)"
    "messages (chat_request h) = h"
    by (simp_all add: send_chat_completion_def chat_request_def)
  have sends: "\<exists>st1. send_event e st p = Continue st1 \<and>
         api_calls st1 = api_calls st @ [chat_request (JArr (xs @ ms))] \<and>
         conversation_history st1 = JArr (xs @ ms @ reply_messages e (JArr (xs @ ms)))"
    if hist: "conversation_history st = JArr xs"
      and acc: "\<not> (strip p = [] \<and> loaded_files st = [])"
      and turn: "turn_messages e (loaded_files st) p = Some ms"
    using send_event_turn [OF acc hist turn] by simp
  have conv: "\<exists>ms'. turn_messages e (loaded_files st) p = Some ms' \<and>
         api_calls st' = api_calls st @ [chat_request (JArr (xs @ ms'))] \<and>
         conversation_history st' = JArr (xs @ ms' @ reply_messages e (JArr (xs @ ms')))"
    if hist: "conversation_history st = JArr xs"
      and acc: "\<not> (strip p = [] \<and> loaded_files st = [])"
      and ret: "send_event e st p = Continue st'"
  proof -
    from send_event_Continue_turn [OF acc hist ret] obtain ms' where
      turn: "turn_messages e (loaded_files st) p = Some ms'" by blast
    from send_event_turn [OF acc hist turn] ret
    have "api_calls st' = api_calls st @ [chat_request (JArr (xs @ ms'))]"
      and "conversation_history st' = JArr (xs @ ms' @ reply_messages e (JArr (xs @ ms')))"
      by auto
    with turn show ?thesis by blast
  qed
  from adds call sends conv show ?thesis by blast
qed

text \<open>
  C7 on a first run with one file loaded, sending \<open>"Review this"\<close> to an endpoint that
  answers: the request holds the developer message, the chunk of the file and the prompt,
  in this order, and the history after the turn ends with the answer.
\<close>

theorem history_append_only_witness:
  "add_user_message (JArr [message ''developer'' ''Be brief.'']) ''Hello''
     = Inr (JArr [message ''developer'' ''Be brief.'', message ''user'' ''Hello'']) \<and>
   messages (chat_request (JArr [message ''user'' ''Hello''])) = JArr [message ''user'' ''Hello''] \<and>
   turn_messages (polite_env\<lparr>read_file := [''a.py'' \<mapsto> ''x = 1'']\<rparr>) [''a.py''] ''Review this''
     = Some [message ''user'' ''[FILE: a.py, PART 1]\<newline>x = 1'', message ''user'' ''Review this''] \<and>
   (\<exists>st1. send_event (polite_env\<lparr>read_file := [''a.py'' \<mapsto> ''x = 1'']\<rparr>)
             (fresh_state\<lparr>loaded_files := [''a.py'']\<rparr>) ''Review this'' = Continue st1 \<and>
      api_calls st1 =
        [chat_request (JArr [message ''developer'' initial_instructions,
                             message ''user'' ''[FILE: a.py, PART 1]\<newline>x = 1'',
                             message ''user'' ''Review this''])] \<and>
      conversation_history st1 =
        JArr [message ''developer'' initial_instructions,
              message ''user'' ''[FILE: a.py, PART 1]\<newline>x = 1'',
              message ''user'' ''Review this'',
              message ''assistant'' ''Hi!''])"
proof -
  let ?e = "polite_env\<lparr>read_file := [''a.py'' \<mapsto> ''x = 1'']\<rparr>"
  let ?st = "fresh_state\<lparr>loaded_files := [''a.py'']\<rparr>"
  let ?ms = "[message ''user'' ''[FILE: a.py, PART 1]\<newline>x = 1'', message ''user'' ''Review this'']"
  have s: "strip ''Review this'' = ''Review this''" by code_simp
  have c: "chunk_text char_tiktoken ''x = 1'' CHUNK_SIZE = Inr [''x = 1'']" by code_simp
  have m: "chunk_msg ''a.py'' (Suc 0) ''x = 1'' = ''[FILE: a.py, PART 1]\<newline>x = 1''" by code_simp
  have turn: "turn_messages ?e (loaded_files ?st) ''Review this'' = Some ?ms"
    by (simp add: turn_messages_def file_messages_def part_messages_def prompt_messages_def
        polite_env_def s c m)
  have acc: "\<not> (strip ''Review this'' = [] \<and> loaded_files ?st = [])" by simp
  have hist: "conversation_history ?st = JArr [message ''developer'' initial_instructions]"
    by (simp add: fresh_state_def)
  have calls: "api_calls ?st = []" by (simp add: fresh_state_def)
  have reply: "reply_messages ?e (JArr ([message ''developer'' initial_instructions] @ ?ms))
      = [message ''assistant'' ''Hi!'']"
    by (simp add: reply_messages_def send_chat_completion_def polite_env_def polite_api_def)
  from history_append_only [where xs = "[message ''developer'' initial_instructions]"
      and st = ?st and e = ?e and p = "''Review this''" and ms = ?ms] hist acc turn
  obtain st1 where "send_event ?e ?st ''Review this'' = Continue st1"
    and "api_calls st1 = api_calls ?st @
        [chat_request (JArr ([message ''developer'' initial_instructions] @ ?ms))]"
    and "conversation_history st1 = JArr ([message ''developer'' initial_instructions] @ ?ms @
        reply_messages ?e (JArr ([message ''developer'' initial_instructions] @ ?ms)))"
    by blast
  then have sent: "\<exists>st1. send_event ?e ?st ''Review this'' = Continue st1 \<and>
      api_calls st1 =
        [chat_request (JArr [message ''developer'' initial_instructions,
                             message ''user'' ''[FILE: a.py, PART 1]\<newline>x = 1'',
                             message ''user'' ''Review this''])] \<and>
      conversation_history st1 =
        JArr [message ''developer'' initial_instructions,
              message ''user'' ''[FILE: a.py, PART 1]\<newline>x = 1'',
              message ''user'' ''Review this'',
              message ''assistant'' ''Hi!'']"
    using calls reply by auto
  from history_append_only [where xs = "[message ''developer'' ''Be brief.'']" and c = "''Hello''"
      and h = "JArr [message ''user'' ''Hello'']"]
  have "add_user_message (JArr [message ''developer'' ''Be brief.'']) ''Hello''
     = Inr (JArr [message ''developer'' ''Be brief.'', message ''user'' ''Hello''])"
    and "messages (chat_request (JArr [message ''user'' ''Hello''])) = JArr [message ''user'' ''Hello'']"
    by simp_all
  with sent turn show ?thesis by simp
qed

text \<open>
  C9. For every Send whose prompt is empty or made of whitespace only, with no file loaded,
  the handler shows the warning and returns to the event loop with the state otherwise
  unchanged: the history, the history file, the loaded-file list, the window's elements
  and the requests sent are what they were.
\<close>

theorem blank_send_rejected:
  assumes "\<forall>c\<in>set p. isspace c" and "loaded_files st = []"
  shows "send_event e st p =
     Continue (st\<lparr>popups := popups st @ [''Please either enter a prompt or load files to send.'']\<rparr>)"
proof -
  from assms(1) have "strip p = []" by (simp only: strip_eq_Nil)
  then show ?thesis using assms(2) by (rule send_event_rejected)
qed

text \<open>C9 on a first run, with a prompt of spaces and a line feed.\<close>

theorem blank_send_rejected_witness:
  "(\<exists>st'. send_event polite_env fresh_state '' \<newline>  '' = Continue st' \<and>
      conversation_history st' = conversation_history fresh_state \<and>
      disk st' = disk fresh_state \<and> loaded_files st' = [] \<and> api_calls st' = [] \<and>
      popups st' = [''Please either enter a prompt or load files to send.''])"
proof -
  have h1: "\<forall>c\<in>set '' \<newline>  ''. isspace c" by code_simp
  have h2: "loaded_files fresh_state = []" by (simp add: fresh_state_def)
  have "popups fresh_state = []" and "api_calls fresh_state = []" by (simp_all add: fresh_state_def)
  with blank_send_rejected [OF h1 h2, of polite_env] h2 show ?thesis by simp
qed

text \<open>
  C10. The Send handler depends on the prompt only through its stripped form: two prompts
  with the same stripped form give the same outcome, a prompt of whitespace only gives the
  outcome of the empty prompt, and a prompt that is not blank, sent with no file loaded
  from a history \<open>xs\<close>, is appended and sent as the user message holding the stripped
  prompt.
\<close>

theorem send_strips_prompt:
  "(strip p = strip q \<longrightarrow> send_event e st p = send_event e st q) \<and>
   ((\<forall>c\<in>set p. isspace c) \<longrightarrow> send_event e st p = send_event e st []) \<and>
   (conversation_history st = JArr xs \<and> loaded_files st = [] \<and> strip p \<noteq> [] \<longrightarrow>
      (\<exists>st'. send_event e st p = Continue st' \<and>
         api_calls st' = api_calls st @ [chat_request (JArr (xs @ [message ''user'' (strip p)]))]))"
proof -
  have same: "send_event e st p = send_event e st q" if "strip p = strip q" for q
    using that by (simp add: send_event_def)
  have blank: "send_event e st p = send_event e st []" if "\<forall>c\<in>set p. isspace c"
  proof -
    from that have "strip p = []" by (simp only: strip_eq_Nil)
    then have "strip p = strip []" by (simp add: strip_Nil)
    then show ?thesis by (rule same)
  qed
  have sent: "\<exists>st'. send_event e st p = Continue st' \<and>
         api_calls st' = api_calls st @ [chat_request (JArr (xs @ [message ''user'' (strip p)]))]"
    if hist: "conversation_history st = JArr xs" and none: "loaded_files st = []"
      and ne: "strip p \<noteq> []"
  proof -
    have acc: "\<not> (strip p = [] \<and> loaded_files st = [])" using ne by simp
    have ing: "ingest_files e (loaded_files st) (conversation_history st) = (JArr xs, None)"
      by (simp add: hist none)
    have pr: "append_prompt (JArr xs) (strip p) = Inr (JArr (xs @ [message ''user'' (strip p)]))"
      using ne by (simp add: append_prompt_list)
    from send_event_accepted [OF acc ing pr] show ?thesis by simp
  qed
  from same blank sent show ?thesis by blast
qed

text \<open>C10 on a first run: \<open>"  Hello\n"\<close> is sent as \<open>"Hello"\<close>, and three spaces as nothing.\<close>

theorem send_strips_prompt_witness:
  "strip ''  Hello\<newline>'' = strip ''Hello'' \<and>
   send_event polite_env fresh_state ''  Hello\<newline>'' = send_event polite_env fresh_state ''Hello'' \<and>
   send_event polite_env fresh_state ''   '' = send_event polite_env fresh_state [] \<and>
   (\<exists>st'. send_event polite_env fresh_state ''  Hello\<newline>'' = Continue st' \<and>
      api_calls st' =
        [chat_request (JArr [message ''developer'' initial_instructions, message ''user'' ''Hello''])])"
proof -
  have s: "strip ''  Hello\<newline>'' = strip ''Hello''" by code_simp
  have s': "strip ''  Hello\<newline>'' = ''Hello''" by code_simp
  have b: "\<forall>c\<in>set ''   ''. isspace c" by code_simp
  have hist: "conversation_history fresh_state = JArr [message ''developer'' initial_instructions]"
    and none: "loaded_files fresh_state = []" and calls: "api_calls fresh_state = []"
    by (simp_all add: fresh_state_def)
  have ne: "strip ''  Hello\<newline>'' \<noteq> []" by (simp add: s')
  from send_strips_prompt [of "''  Hello\<newline>''" "''Hello''" polite_env fresh_state
      "[message ''developer'' initial_instructions]"] s hist none ne
  have a: "send_event polite_env fresh_state ''  Hello\<newline>'' = send_event polite_env fresh_state ''Hello''"
    and c: "\<exists>st'. send_event polite_env fresh_state ''  Hello\<newline>'' = Continue st' \<and>
      api_calls st' = api_calls fresh_state @
        [chat_request (JArr ([message ''developer'' initial_instructions] @ [message ''user'' (strip ''  Hello\<newline>'')]))]"
    by blast+
  from send_strips_prompt [of "''   ''" _ polite_env fresh_state] b
  have d: "send_event polite_env fresh_state ''   '' = send_event polite_env fresh_state []"
    by blast
  from c have c': "\<exists>st'. send_event polite_env fresh_state ''  Hello\<newline>'' = Continue st' \<and>
      api_calls st' =
        [chat_request (JArr [message ''developer'' initial_instructions, message ''user'' ''Hello''])]"
    by (simp add: calls s')
  from s a d c' show ?thesis by blast
qed

end
